theory Spec2Isabelle
  imports Complex_Main
begin

section \<open>Synthetic UPI transactions: data model\<close>

text \<open>
  One row of the table built by \<^verbatim>\<open>generate_synthetic_transactions\<close>. The columns are
  the keys of the dictionary \<^verbatim>\<open>transaction\<close>. Floats are read as the real numbers they
  denote; a \<^verbatim>\<open>datetime\<close> is the integer number of microseconds since the epoch
  (the resolution of Python's \<^verbatim>\<open>datetime\<close>), so that a difference of two timestamps is
  an exact number of microseconds; \<^verbatim>\<open>is_fraud\<close> is the integer \<^verbatim>\<open>int(is_fraud)\<close>.
\<close>

record txn =
  transaction_id :: string
  user_id :: string
  timestamp :: int
  amount :: real
  recipient_id :: string
  transaction_type :: string
  device_id :: string
  location :: string
  is_fraud :: int
  fraud_type :: string

text \<open>
  A data frame is the list of its rows. The frame returned by \<^verbatim>\<open>pd.DataFrame(data)\<close>
  carries the default index \<^verbatim>\<open>0 .. n - 1\<close>, hence an index label is the position of
  the row in the list and \<^verbatim>\<open>df.loc[idx, col]\<close> reads or writes row \<open>idx\<close>.
\<close>

type_synonym dataframe = "txn list"

section \<open>The sequential pattern injector\<close>

text \<open>\<^verbatim>\<open>Series.unique()\<close>: the distinct values in order of first appearance.\<close>

definition unique :: "'a list \<Rightarrow> 'a list" where
  "unique xs = rev (remdups (rev xs))"

text \<open>\<^verbatim>\<open>users = df['user_id'].unique()[:100]\<close>\<close>

definition users :: "dataframe \<Rightarrow> string list" where
  "users df = take 100 (unique (map user_id df))"

text \<open>\<^verbatim>\<open>df[user_mask].index\<close> with \<^verbatim>\<open>user_mask = df['user_id'] == user\<close>\<close>

definition user_indices :: "dataframe \<Rightarrow> string \<Rightarrow> nat list" where
  "user_indices df user = filter (\<lambda>i. user_id (df ! i) = user) [0..<length df]"

text \<open>
  Python's \<^verbatim>\<open>round\<close> to an integer: ties go to the even neighbour.
\<close>

definition round_half_even :: "real \<Rightarrow> int" where
  "round_half_even x =
     (let f = \<lfloor>x\<rfloor>; d = x - of_int f
      in if d < 1 / 2 then f else if 1 / 2 < d then f + 1 else if even f then f else f + 1)"

text \<open>
  \<^verbatim>\<open>DataFrame.sample(frac=0.1, random_state=RANDOM_STATE)\<close> on a frame of \<open>n\<close> rows draws
  \<^verbatim>\<open>round(frac * n)\<close> rows without replacement. The positions it draws come from a
  generator seeded afresh with \<^verbatim>\<open>RANDOM_STATE\<close> at every call
  (\<^verbatim>\<open>RandomState(seed).choice(n, size, replace=False)\<close>), so they are a function of
  \<open>n\<close> and the size alone. That function is the parameter \<open>choice\<close> of the injector;
  \<open>choice_ok\<close> is what the library guarantees of it.
\<close>

definition sample_size :: "nat \<Rightarrow> nat" where
  "sample_size n = nat (round_half_even (real n / 10))"

definition choice_ok :: "(nat \<Rightarrow> nat \<Rightarrow> nat list) \<Rightarrow> bool" where
  "choice_ok choice \<longleftrightarrow>
     (\<forall>n k. k \<le> n \<longrightarrow>
        length (choice n k) = k \<and> distinct (choice n k) \<and> (\<forall>p \<in> set (choice n k). p < n))"

text \<open>
  \<^verbatim>\<open>fraud_indices = df[user_mask].sample(frac=0.1, random_state=RANDOM_STATE).index\<close>:
  the index labels of the sampled rows of the user's sub-frame.
\<close>

definition fraud_indices :: "(nat \<Rightarrow> nat \<Rightarrow> nat list) \<Rightarrow> dataframe \<Rightarrow> string \<Rightarrow> nat list" where
  "fraud_indices choice df user =
     (let idxs = user_indices df user
      in map (\<lambda>p. idxs ! p) (choice (length idxs) (sample_size (length idxs))))"

text \<open>
  \<^verbatim>\<open>df.loc[idx, 'is_fraud'] = 1; df.loc[idx, 'fraud_type'] = label\<close> on one row, and on
  every row of a list of labels.
\<close>

definition mark :: "string \<Rightarrow> txn \<Rightarrow> txn" where
  "mark label r = r\<lparr>is_fraud := 1, fraud_type := label\<rparr>"

definition set_fraud :: "string \<Rightarrow> dataframe \<Rightarrow> nat list \<Rightarrow> dataframe" where
  "set_fraud label df idxs = foldl (\<lambda>d i. d[i := mark label (d ! i)]) df idxs"

text \<open>The velocity statements of the loop body (source lines 95 to 97).\<close>

definition add_velocity :: "(nat \<Rightarrow> nat \<Rightarrow> nat list) \<Rightarrow> dataframe \<Rightarrow> string \<Rightarrow> dataframe" where
  "add_velocity choice df user = set_fraud ''velocity_attack'' df (fraud_indices choice df user)"

text \<open>
  The condition of the micropay test on the rows \<open>idx1\<close> and \<open>idx2\<close>.
  \<^verbatim>\<open>total_seconds() <= 300\<close> holds exactly when the signed difference is at most
  300 000 000 microseconds.
\<close>

definition micropay_cond :: "dataframe \<Rightarrow> nat \<Rightarrow> nat \<Rightarrow> bool" where
  "micropay_cond df idx1 idx2 \<longleftrightarrow>
     amount (df ! idx1) \<le> 10 \<and> 10000 < amount (df ! idx2) \<and>
     timestamp (df ! idx2) - timestamp (df ! idx1) \<le> 300 * 1000000"

text \<open>One iteration of \<^verbatim>\<open>for i in range(1, len(user_indices) - 1)\<close>.\<close>

definition micropay_step :: "nat list \<Rightarrow> dataframe \<Rightarrow> nat \<Rightarrow> dataframe" where
  "micropay_step user_idxs df i =
     (let idx1 = user_idxs ! i; idx2 = user_idxs ! (i + 1)
      in if micropay_cond df idx1 idx2
         then df[idx2 := mark ''micropay_scam'' (df ! idx2)]
         else df)"

text \<open>The micropay statements of the loop body (source lines 100 to 108).\<close>

definition add_micropay :: "dataframe \<Rightarrow> string \<Rightarrow> dataframe" where
  "add_micropay df user =
     (let user_idxs = user_indices df user
      in if length user_idxs > 2
         then foldl (micropay_step user_idxs) df [1..<length user_idxs - 1]
         else df)"

text \<open>The body of \<^verbatim>\<open>for user in users\<close>.\<close>

definition process_user :: "(nat \<Rightarrow> nat \<Rightarrow> nat list) \<Rightarrow> dataframe \<Rightarrow> string \<Rightarrow> dataframe" where
  "process_user choice df user =
     (if length (user_indices df user) > 10
      then add_micropay (add_velocity choice df user) user
      else df)"

definition add_sequential_patterns :: "(nat \<Rightarrow> nat \<Rightarrow> nat list) \<Rightarrow> dataframe \<Rightarrow> dataframe" where
  "add_sequential_patterns choice df = foldl (process_user choice) df (users df)"

text \<open>
  Auxiliary notions for the proofs. \<open>core\<close> blanks the two columns the injector writes;
  \<open>micropay_targets\<close> lists the rows the micropay loop of one user relabels;
  \<open>relabel\<close> is the combined effect of one loop body on row \<open>j\<close>; \<open>qualifies\<close> says
  that the loop body of a user runs its relabelling statements.
\<close>

definition core :: "txn \<Rightarrow> txn" where
  "core r = r\<lparr>is_fraud := 0, fraud_type := []\<rparr>"

definition micropay_targets :: "dataframe \<Rightarrow> string \<Rightarrow> nat list" where
  "micropay_targets df user =
     (let idxs = user_indices df user
      in map (\<lambda>i. idxs ! (i + 1))
           (filter (\<lambda>i. micropay_cond df (idxs ! i) (idxs ! (i + 1))) [1..<length idxs - 1]))"

definition relabel :: "(nat \<Rightarrow> nat \<Rightarrow> nat list) \<Rightarrow> dataframe \<Rightarrow> string \<Rightarrow> nat \<Rightarrow> txn \<Rightarrow> txn" where
  "relabel choice df u j r =
     (if j \<in> set (micropay_targets df u) then mark ''micropay_scam'' r
      else if j \<in> set (fraud_indices choice df u) then mark ''velocity_attack'' r
      else r)"

definition qualifies :: "dataframe \<Rightarrow> string \<Rightarrow> bool" where
  "qualifies df u \<longleftrightarrow> u \<in> set (users df) \<and> length (user_indices df u) > 10"

section \<open>The transaction sampler\<close>

text \<open>
  The format specification \<^verbatim>\<open>{i:0wd}\<close> of an f-string: the decimal digits of \<open>i\<close>,
  padded with zeros on the left to at least \<open>w\<close> characters.
\<close>

definition digit_char :: "nat \<Rightarrow> char" where
  "digit_char d = ''0123456789'' ! d"

fun digits :: "nat \<Rightarrow> string" where
  "digits n = (if n < 10 then [digit_char n] else digits (n div 10) @ [digit_char (n mod 10)])"

declare digits.simps [simp del]

definition fmt_d :: "nat \<Rightarrow> nat \<Rightarrow> string" where
  "fmt_d width n = replicate (width - length (digits n)) CHR ''0'' @ digits n"

text \<open>
  \<^verbatim>\<open>user_ids = [f'USER_{i:04d}' for i in range(1, 1001)]\<close> and
  \<^verbatim>\<open>recipients = [f'RECIP_{i:04d}' for i in range(1, 501)]\<close>
\<close>

definition user_ids :: "string list" where
  "user_ids = map (\<lambda>i. ''USER_'' @ fmt_d 4 i) [1..<1001]"

definition recipients :: "string list" where
  "recipients = map (\<lambda>i. ''RECIP_'' @ fmt_d 4 i) [1..<501]"

text \<open>
  The two generators are seeded once, at import, with \<^verbatim>\<open>RANDOM_STATE\<close>; what they
  return afterwards is fixed by the seed. The values they hand to iteration \<open>i\<close> of the
  loop are collected in a record, one field for each call site of the loop body
  (\<open>d_uniform\<close> serves the three \<^verbatim>\<open>np.random.uniform\<close> calls, \<open>d_recipient\<close> the three
  \<^verbatim>\<open>random.choice(recipients...)\<close> calls: one iteration runs exactly one of each).
  A choice from a list is an arbitrary natural number reduced to an index of the list;
  \<^verbatim>\<open>random.random()\<close> and the uniform variate are numbers in \<open>[0, 1)\<close>;
  \<open>d_exp\<close> is the standard exponential variate and \<open>d_normal\<close> the standard normal one,
  from which numpy computes \<^verbatim>\<open>exponential(scale) = scale * e\<close>,
  \<^verbatim>\<open>normal(loc, scale) = loc + scale * z\<close> and
  \<^verbatim>\<open>uniform(low, high) = low + (high - low) * u\<close>.
  \<open>draws_ok\<close> states the ranges of these values.
\<close>

record draws =
  d_user :: nat
  d_time :: real
  d_fraud :: real
  d_exp :: real
  d_archetype :: nat
  d_micro :: nat
  d_uniform :: real
  d_normal :: real
  d_contact :: real
  d_recipient :: nat
  d_type :: nat
  d_location :: nat

definition draws_ok :: "draws \<Rightarrow> bool" where
  "draws_ok d \<longleftrightarrow>
     0 \<le> d_time d \<and> d_time d < 1 \<and> 0 \<le> d_fraud d \<and> d_fraud d < 1 \<and>
     0 \<le> d_contact d \<and> d_contact d < 1 \<and> 0 \<le> d_uniform d \<and> d_uniform d < 1 \<and>
     0 \<le> d_exp d"

definition random_choice :: "'a list \<Rightarrow> nat \<Rightarrow> 'a" where
  "random_choice xs k = xs ! (k mod length xs)"

definition uniform :: "real \<Rightarrow> real \<Rightarrow> real \<Rightarrow> real" where
  "uniform low high u = low + (high - low) * u"

text \<open>\<^verbatim>\<open>round(amount, 2)\<close>: to the nearest hundredth, ties to the even one.\<close>

definition round2 :: "real \<Rightarrow> real" where
  "round2 x = of_int (round_half_even (x * 100)) / 100"

text \<open>
  \<^verbatim>\<open>timedelta(days=n)\<close> in microseconds, and the product of a \<^verbatim>\<open>timedelta\<close> with a
  float, which Python rounds to the nearest microsecond, ties to even.
\<close>

definition days :: "int \<Rightarrow> int" where
  "days n = n * 86400 * 1000000"

definition timedelta_mul :: "int \<Rightarrow> real \<Rightarrow> int" where
  "timedelta_mul td x = round_half_even (of_int td * x)"

text \<open>
  The body of \<^verbatim>\<open>for i in range(n_samples)\<close>. Besides the draws it reads the wall clock
  (\<open>now\<close> is the value of \<^verbatim>\<open>datetime.now()\<close>, read once before the loop), the built-in
  \<^verbatim>\<open>hash\<close> of strings, whose values are fixed per interpreter process, and the
  configuration constant \<^verbatim>\<open>FRAUD_RATE\<close>. The four-way \<^verbatim>\<open>if/elif\<close> on the archetype is
  exhaustive, since the archetype is chosen from the four names; its last test is the
  final \<open>else\<close> here.
\<close>

definition transaction :: "int \<Rightarrow> (string \<Rightarrow> int) \<Rightarrow> real \<Rightarrow> nat \<Rightarrow> draws \<Rightarrow> txn" where
  "transaction now hash FRAUD_RATE i d =
     (let user = random_choice user_ids (d_user d);
          end_date = now;
          start_date = end_date - days 90;
          ts = start_date + timedelta_mul (end_date - start_date) (d_time d);
          fraud = (d_fraud d < FRAUD_RATE);
          user_avg = 1000 + 9000 * d_exp d;
          ftype = random_choice
                    [''micropay_scam'', ''velocity_attack'', ''new_recipient'', ''fake_refund'']
                    (d_archetype d);
          amt = (if fraud then
                   (if ftype = ''micropay_scam'' then random_choice [1, 2, 5, 10] (d_micro d)
                    else if ftype = ''velocity_attack'' then uniform 5000 50000 (d_uniform d)
                    else if ftype = ''new_recipient'' then user_avg * uniform 3 10 (d_uniform d)
                    else uniform 1000 20000 (d_uniform d))
                 else min (max 10 (user_avg + user_avg / 3 * d_normal d)) 100000);
          recipient = (if fraud then random_choice recipients (d_recipient d)
                       else if d_contact d < 0.8
                       then random_choice (take 50 recipients) (d_recipient d)
                       else random_choice recipients (d_recipient d))
      in \<lparr>transaction_id = ''TXN_'' @ fmt_d 8 i,
          user_id = user,
          timestamp = ts,
          amount = round2 amt,
          recipient_id = recipient,
          transaction_type =
            random_choice [''P2P'', ''P2M'', ''Recharge'', ''Bill Payment''] (d_type d),
          device_id = ''DEV_'' @ fmt_d 3 (nat (hash user mod 100)),
          location =
            random_choice
              [''Delhi'', ''Mumbai'', ''Bangalore'', ''Chennai'', ''Kolkata'', ''Hyderabad'']
              (d_location d),
          is_fraud = (if fraud then 1 else 0),
          fraud_type = (if fraud then ftype else ''legitimate'')\<rparr>)"

definition generate_synthetic_transactions ::
  "int \<Rightarrow> (string \<Rightarrow> int) \<Rightarrow> real \<Rightarrow> (nat \<Rightarrow> draws) \<Rightarrow> nat \<Rightarrow> dataframe" where
  "generate_synthetic_transactions now hash FRAUD_RATE rng n_samples =
     map (\<lambda>i. transaction now hash FRAUD_RATE i (rng i)) [0..<n_samples]"

text \<open>The two calls of the main block.\<close>

definition pipeline ::
  "(nat \<Rightarrow> nat \<Rightarrow> nat list) \<Rightarrow> int \<Rightarrow> (string \<Rightarrow> int) \<Rightarrow> real \<Rightarrow> (nat \<Rightarrow> draws) \<Rightarrow> nat \<Rightarrow> dataframe" where
  "pipeline choice now hash FRAUD_RATE rng n_samples =
     add_sequential_patterns choice (generate_synthetic_transactions now hash FRAUD_RATE rng n_samples)"

section \<open>Concrete inputs\<close>

text \<open>
  A sampler that meets \<open>choice_ok\<close>: the last \<open>k\<close> of the \<open>n\<close> positions. And a row with
  the given user, timestamp, amount and label.
\<close>

definition last_rows :: "nat \<Rightarrow> nat \<Rightarrow> nat list" where
  "last_rows n k = [n - k..<n]"

definition row :: "nat \<Rightarrow> string \<Rightarrow> int \<Rightarrow> real \<Rightarrow> int \<Rightarrow> string \<Rightarrow> txn" where
  "row i u ts amt f ft =
     \<lparr>transaction_id = ''TXN_'' @ fmt_d 8 i, user_id = u, timestamp = ts, amount = amt,
      recipient_id = ''RECIP_0001'', transaction_type = ''P2P'', device_id = ''DEV_000'',
      location = ''Delhi'', is_fraud = f, fraud_type = ft\<rparr>"

text \<open>Reading a formatted number back: the value of a digit and of a digit string.\<close>

definition digit_val :: "char \<Rightarrow> nat" where
  "digit_val c = of_char c - 48"

definition digits_val :: "string \<Rightarrow> nat" where
  "digits_val s = foldl (\<lambda>a c. 10 * a + digit_val c) 0 s"

text \<open>The three things the injector can have done to a row, and a constant stream of draws.\<close>

definition relabelled :: "txn \<Rightarrow> txn \<Rightarrow> bool" where
  "relabelled r r' \<longleftrightarrow>
     r' = r \<or> r' = mark ''velocity_attack'' r \<or> r' = mark ''micropay_scam'' r"

definition draws_a :: draws where
  "draws_a = \<lparr>d_user = 6, d_time = 1 / 4, d_fraud = 1 / 2, d_exp = 1, d_archetype = 2,
              d_micro = 2, d_uniform = 1 / 4, d_normal = 3 / 2, d_contact = 9 / 10,
              d_recipient = 777, d_type = 3, d_location = 7\<rparr>"

text \<open>A table with 101 users, one row each.\<close>

definition df_many :: dataframe where
  "df_many = map (\<lambda>i. row i (''USER_'' @ fmt_d 4 (i + 1)) (int i * 60000000) 250 0 ''legitimate'')
               [0..<101]"

text \<open>The columns the injector does not write.\<close>

definition other_columns ::
  "txn \<Rightarrow> string \<times> string \<times> int \<times> real \<times> string \<times> string \<times> string \<times> string" where
  "other_columns r =
     (transaction_id r, user_id r, timestamp r, amount r, recipient_id r,
      transaction_type r, device_id r, location r)"

text \<open>
  Tables of one user with eleven rows, an hour apart, all legitimate with amount 250,
  except for one pair of neighbours with amounts 5 and 15000: the first two rows, 120
  seconds apart (\<open>df_first_pair\<close>); the last two rows, 120 seconds apart (\<open>df_last_pair\<close>);
  rows 4 and 5, the second one a year before the first (\<open>df_reversed\<close>). And a table of
  one user with three rows whose last two are such a pair (\<open>df_short\<close>).
\<close>

definition filler :: "string \<Rightarrow> nat \<Rightarrow> txn" where
  "filler u i = row i u (1700000000000000 + int i * 3600000000) 250 0 ''legitimate''"

definition df_first_pair :: dataframe where
  "df_first_pair =
     [row 0 ''USER_0007'' 1700000000000000 5 1 ''micropay_scam'',
      row 1 ''USER_0007'' 1700000120000000 15000 0 ''legitimate'']
     @ map (filler ''USER_0007'') [2..<11]"

definition df_last_pair :: dataframe where
  "df_last_pair =
     map (filler ''USER_0007'') [0..<9]
     @ [row 9 ''USER_0007'' 1700032400000000 5 1 ''micropay_scam'',
        row 10 ''USER_0007'' 1700032520000000 15000 0 ''legitimate'']"

definition df_reversed :: dataframe where
  "df_reversed =
     map (filler ''USER_0007'') [0..<4]
     @ [row 4 ''USER_0007'' 1700014400000000 10 0 ''legitimate'',
        row 5 ''USER_0007'' 1668478400000000 15000 0 ''legitimate'']
     @ map (filler ''USER_0007'') [6..<11]"

definition df_short :: dataframe where
  "df_short =
     [filler ''USER_0007'' 0,
      row 1 ''USER_0007'' 1700003600000000 5 1 ''micropay_scam'',
      row 2 ''USER_0007'' 1700000000000000 15000 0 ''legitimate'']"

text \<open>
  What a second run changes in a row of a first run made with the same seed: the
  timestamp moves by the difference of the two clock readings, and the device is
  computed with the string hash of the second process.
\<close>

definition rerun :: "int \<Rightarrow> (string \<Rightarrow> int) \<Rightarrow> txn \<Rightarrow> txn" where
  "rerun shift hash r =
     r\<lparr>timestamp := timestamp r + shift,
       device_id := ''DEV_'' @ fmt_d 3 (nat (hash (user_id r) mod 100))\<rparr>"

text \<open>Two string hashes and a stream of draws, for two concrete runs.\<close>

definition hash_a :: "string \<Rightarrow> int" where
  "hash_a s = int (sum_list (map of_char s))"

definition hash_b :: "string \<Rightarrow> int" where
  "hash_b s = - hash_a s - 1"

definition rng_a :: "nat \<Rightarrow> draws" where
  "rng_a i = draws_a"

text \<open>
  A table of one user with 25 rows whose last two rows are a micropay pair
  (\<open>df_tail_pair\<close>). And a table of 121 rows (\<open>df_mixed\<close>): two rows of
  \<^verbatim>\<open>USER_0500\<close>, one row each of \<^verbatim>\<open>USER_0001\<close> to \<^verbatim>\<open>USER_0100\<close>, nine more rows of
  \<^verbatim>\<open>USER_0500\<close>, ten more rows of \<^verbatim>\<open>USER_0099\<close>; so \<^verbatim>\<open>USER_0099\<close> is the 100th
  distinct user met and \<^verbatim>\<open>USER_0100\<close> the 101st.
\<close>

definition df_tail_pair :: dataframe where
  "df_tail_pair =
     map (filler ''USER_0007'') [0..<23]
     @ [row 23 ''USER_0007'' 1700082800000000 5 1 ''micropay_scam'',
        row 24 ''USER_0007'' 1700082920000000 15000 0 ''legitimate'']"

definition df_mixed :: dataframe where
  "df_mixed =
     map (filler ''USER_0500'') [0..<2]
     @ map (\<lambda>i. filler (''USER_'' @ fmt_d 4 (i - 1)) i) [2..<102]
     @ map (filler ''USER_0500'') [102..<111]
     @ map (filler ''USER_0099'') [111..<121]"

section \<open>Properties of the row operations\<close>

lemma core_mark [simp]: "core (mark l r) = core r"
  by (simp add: core_def mark_def)

lemma mark_mark [simp]: "mark l (mark l' r) = mark l r"
  by (simp add: mark_def)

lemma core_fields:
  "user_id (core r) = user_id r" "amount (core r) = amount r" "timestamp (core r) = timestamp r"
  by (simp_all add: core_def)

lemma core_eq_fields:
  assumes "core r = core r'"
  shows "user_id r = user_id r'" "amount r = amount r'" "timestamp r = timestamp r'"
  using assms core_fields by metis+

lemma set_fraud_length [simp]: "length (set_fraud l df idxs) = length df"
  unfolding set_fraud_def by (induction idxs arbitrary: df) simp_all

lemma set_fraud_nth:
  "j < length df \<Longrightarrow>
   set_fraud l df idxs ! j = (if j \<in> set idxs then mark l (df ! j) else df ! j)"
  unfolding set_fraud_def
proof (induction idxs arbitrary: df)
  case Nil
  then show ?case by simp
next
  case (Cons i idxs)
  let ?d = "df[i := mark l (df ! i)]"
  have len: "j < length ?d" using Cons.prems by simp
  show ?case
    using Cons.IH [OF len] Cons.prems
    by (cases "i = j") (simp_all)
qed


lemma map_core_update [simp]: "map core (d[i := mark l (d ! i)]) = map core d"
proof (cases "i < length d")
  case True
  then show ?thesis by (simp add: map_update list_update_same_conv)
next
  case False
  then have "d[i := mark l (d ! i)] = d" by (intro list_update_beyond) simp
  then show ?thesis by simp
qed

lemma map_core_nth:
  "map core d = map core d' \<Longrightarrow> j < length d \<Longrightarrow> core (d ! j) = core (d' ! j)"
  by (metis length_map nth_map)

lemma map_core_length: "map core d = map core d' \<Longrightarrow> length d = length d'"
  by (metis length_map)

lemma user_indices_core:
  assumes "map core d = map core d'"
  shows "user_indices d u = user_indices d' u"
proof -
  have len: "length d = length d'" using assms by (rule map_core_length)
  have "\<And>i. i < length d \<Longrightarrow> user_id (d ! i) = user_id (d' ! i)"
    using map_core_nth [OF assms] core_eq_fields(1) by blast
  then show ?thesis
    unfolding user_indices_def len [symmetric]
    by (intro filter_cong) auto
qed

lemma micropay_cond_core:
  assumes "map core d = map core d'" "a < length d" "b < length d"
  shows "micropay_cond d a b = micropay_cond d' a b"
proof -
  have "core (d ! a) = core (d' ! a)" "core (d ! b) = core (d' ! b)"
    using assms map_core_nth by blast+
  then have "amount (d ! a) = amount (d' ! a)" "amount (d ! b) = amount (d' ! b)"
    "timestamp (d ! a) = timestamp (d' ! a)" "timestamp (d ! b) = timestamp (d' ! b)"
    using core_eq_fields by blast+
  then show ?thesis by (simp add: micropay_cond_def)
qed

lemma user_indices_bound: "p \<in> set (user_indices df u) \<Longrightarrow> p < length df"
  by (simp add: user_indices_def)

lemma user_indices_user: "p \<in> set (user_indices df u) \<longleftrightarrow> p < length df \<and> user_id (df ! p) = u"
  by (auto simp add: user_indices_def)

lemma user_indices_distinct: "distinct (user_indices df u)"
  by (simp add: user_indices_def)

lemma micropay_step_core [simp]: "map core (micropay_step idxs d i) = map core d"
  by (simp add: micropay_step_def Let_def)

lemma micropay_step_length [simp]: "length (micropay_step idxs d i) = length d"
  by (simp add: micropay_step_def Let_def)

lemma micropay_fold:
  assumes "\<forall>p \<in> set idxs. p < length df"
    and "\<forall>i \<in> set is. i + 1 < length idxs"
    and "map core d = map core df"
    and "j < length df"
  shows "foldl (micropay_step idxs) d is ! j =
         (if j \<in> (\<lambda>i. idxs ! (i + 1)) ` {i \<in> set is. micropay_cond df (idxs ! i) (idxs ! (i + 1))}
          then mark ''micropay_scam'' (d ! j) else d ! j)"
  using assms(2,3)
proof (induction "is" arbitrary: d)
  case Nil
  then show ?case by simp
next
  case (Cons i "is")
  let ?d = "micropay_step idxs d i"
  have len: "length d = length df" using Cons.prems(2) by (rule map_core_length)
  have i1: "i + 1 < length idxs" using Cons.prems(1) by simp
  then have a: "idxs ! i < length d" and b: "idxs ! (i + 1) < length d"
    using assms(1) len by simp_all
  have cond: "micropay_cond d (idxs ! i) (idxs ! (i + 1)) = micropay_cond df (idxs ! i) (idxs ! (i + 1))"
    using micropay_cond_core [OF Cons.prems(2) a b] .
  have core': "map core ?d = map core df" using Cons.prems(2) by simp
  have IH: "foldl (micropay_step idxs) ?d is ! j =
         (if j \<in> (\<lambda>i. idxs ! (i + 1)) ` {i \<in> set is. micropay_cond df (idxs ! i) (idxs ! (i + 1))}
          then mark ''micropay_scam'' (?d ! j) else ?d ! j)"
    using Cons.IH [OF _ core'] Cons.prems(1) by simp
  have step: "?d ! j = (if micropay_cond df (idxs ! i) (idxs ! (i + 1)) \<and> j = idxs ! (i + 1)
                        then mark ''micropay_scam'' (d ! j) else d ! j)"
    using cond b assms(4) len by (simp add: micropay_step_def Let_def nth_list_update)
  show ?case
    unfolding foldl_Cons IH step by auto
qed

lemma add_micropay_core [simp]: "map core (add_micropay d u) = map core d"
proof -
  have "map core (foldl (micropay_step idxs) d is) = map core d" for idxs "is"
    by (induction "is" arbitrary: d) simp_all
  then show ?thesis by (simp add: add_micropay_def Let_def)
qed

lemma micropay_targets_set:
  "set (micropay_targets df u) =
     (\<lambda>i. user_indices df u ! (i + 1)) `
       {i \<in> set [1..<length (user_indices df u) - 1].
          micropay_cond df (user_indices df u ! i) (user_indices df u ! (i + 1))}"
  by (simp add: micropay_targets_def Let_def)

lemma add_micropay_nth:
  assumes "map core d = map core df" "j < length df"
  shows "add_micropay d u ! j =
         (if j \<in> set (micropay_targets df u) then mark ''micropay_scam'' (d ! j) else d ! j)"
proof -
  let ?idxs = "user_indices df u"
  have ui: "user_indices d u = ?idxs" using assms(1) by (rule user_indices_core)
  have bound: "\<forall>p \<in> set ?idxs. p < length df" by (simp add: user_indices_bound)
  have rng: "\<forall>i \<in> set [1..<length ?idxs - 1]. i + 1 < length ?idxs" by auto
  show ?thesis
  proof (cases "length ?idxs > 2")
    case True
    then show ?thesis
      unfolding add_micropay_def ui Let_def micropay_targets_set
      using micropay_fold [OF bound rng assms] by simp
  next
    case False
    then have "[1..<length ?idxs - 1] = []" by simp
    then show ?thesis
      unfolding add_micropay_def ui Let_def micropay_targets_set using False by simp
  qed
qed


lemma round_half_even_le_ceiling: "round_half_even x \<le> \<lceil>x\<rceil>"
  unfolding round_half_even_def Let_def by (auto simp: ceiling_def) linarith+

lemma round_half_even_nonneg: "0 \<le> x \<Longrightarrow> 0 \<le> round_half_even x"
  unfolding round_half_even_def Let_def by auto

lemma sample_size_le: "sample_size n \<le> n"
proof -
  have "round_half_even (real n / 10) \<le> \<lceil>real n / 10\<rceil>" by (rule round_half_even_le_ceiling)
  also have "\<dots> \<le> int n" by (simp add: ceiling_le_iff)
  finally show ?thesis by (simp add: sample_size_def)
qed

lemma fraud_indices_core:
  "map core d = map core d' \<Longrightarrow> fraud_indices choice d u = fraud_indices choice d' u"
  by (simp add: fraud_indices_def user_indices_core [of d d'])

lemma fraud_indices_props:
  assumes "choice_ok choice"
  shows "length (fraud_indices choice df u) = sample_size (length (user_indices df u))"
    and "distinct (fraud_indices choice df u)"
    and "set (fraud_indices choice df u) \<subseteq> set (user_indices df u)"
proof -
  let ?idxs = "user_indices df u"
  let ?ps = "choice (length ?idxs) (sample_size (length ?idxs))"
  have ok: "length ?ps = sample_size (length ?idxs)" "distinct ?ps" "\<forall>p \<in> set ?ps. p < length ?idxs"
    using assms sample_size_le [of "length ?idxs"] unfolding choice_ok_def by blast+
  show "length (fraud_indices choice df u) = sample_size (length ?idxs)"
    using ok(1) by (simp add: fraud_indices_def Let_def)
  have "inj_on (\<lambda>p. ?idxs ! p) (set ?ps)"
    using ok(3) user_indices_distinct [of df u]
    by (auto simp: inj_on_def nth_eq_iff_index_eq)
  then show "distinct (fraud_indices choice df u)"
    using ok(2) by (simp add: fraud_indices_def Let_def distinct_map)
  show "set (fraud_indices choice df u) \<subseteq> set ?idxs"
    using ok(3) by (auto simp: fraud_indices_def Let_def)
qed

lemma micropay_targets_subset: "set (micropay_targets df u) \<subseteq> set (user_indices df u)"
  by (auto simp: micropay_targets_set)

lemma add_velocity_core [simp]: "map core (add_velocity choice d u) = map core d"
proof -
  have "map core (foldl (\<lambda>d i. d[i := mark l (d ! i)]) d is) = map core d" for l "is"
    by (induction "is" arbitrary: d) simp_all
  then show ?thesis by (simp add: add_velocity_def set_fraud_def)
qed

lemma process_user_core [simp]: "map core (process_user choice d u) = map core d"
  by (simp add: process_user_def)

lemma process_user_nth:
  assumes "map core d = map core df" "j < length df"
  shows "process_user choice d u ! j =
         (if length (user_indices df u) > 10 then relabel choice df u j (d ! j) else d ! j)"
proof -
  have ui: "user_indices d u = user_indices df u" using assms(1) by (rule user_indices_core)
  have fi: "fraud_indices choice d u = fraud_indices choice df u"
    using assms(1) by (rule fraud_indices_core)
  have len: "length d = length df" using assms(1) by (rule map_core_length)
  have v: "add_velocity choice d u ! j =
           (if j \<in> set (fraud_indices choice df u) then mark ''velocity_attack'' (d ! j) else d ! j)"
    using assms(2) len by (simp add: add_velocity_def set_fraud_nth fi)
  have "map core (add_velocity choice d u) = map core df" using assms(1) by simp
  from add_micropay_nth [OF this assms(2)] v
  show ?thesis by (simp add: process_user_def ui relabel_def)
qed

lemma relabel_other_user:
  assumes "choice_ok choice" "j < length df" "user_id (df ! j) \<noteq> u"
  shows "relabel choice df u j r = r"
proof -
  have "j \<notin> set (user_indices df u)" using assms(3) by (simp add: user_indices_user)
  then have "j \<notin> set (micropay_targets df u)" "j \<notin> set (fraud_indices choice df u)"
    using micropay_targets_subset fraud_indices_props(3) [OF assms(1)] by blast+
  then show ?thesis by (simp add: relabel_def)
qed

lemma fold_users_core [simp]: "map core (foldl (process_user choice) d us) = map core d"
  by (induction us arbitrary: d) simp_all

lemma fold_users_nth:
  assumes "choice_ok choice" "j < length df" "distinct us" "map core d = map core df"
  shows "foldl (process_user choice) d us ! j =
         (if user_id (df ! j) \<in> set us \<and> length (user_indices df (user_id (df ! j))) > 10
          then relabel choice df (user_id (df ! j)) j (d ! j) else d ! j)"
  using assms(3,4)
proof (induction us arbitrary: d)
  case Nil
  then show ?case by simp
next
  case (Cons u us)
  let ?d = "process_user choice d u"
  have core': "map core ?d = map core df" using Cons.prems(2) by simp
  have dist: "distinct us" and notin: "u \<notin> set us" using Cons.prems(1) by simp_all
  note IH = Cons.IH [OF dist core']
  note step = process_user_nth [OF Cons.prems(2) assms(2), of choice u]
  show ?case
  proof (cases "user_id (df ! j) = u")
    case True
    then have "user_id (df ! j) \<notin> set us" using notin by simp
    then show ?thesis using IH step True by simp
  next
    case False
    then have "relabel choice df u j (d ! j) = d ! j"
      using relabel_other_user [OF assms(1,2)] by simp
    then have "?d ! j = d ! j" using step by simp
    then show ?thesis using IH False by auto
  qed
qed

lemma unique_set [simp]: "set (unique xs) = set xs"
  by (simp add: unique_def)

lemma unique_distinct [simp]: "distinct (unique xs)"
  by (simp add: unique_def)

lemma unique_snoc: "unique (xs @ [x]) = (if x \<in> set xs then unique xs else unique xs @ [x])"
  by (simp add: unique_def)

lemma users_distinct: "distinct (users df)"
  by (simp add: users_def)

lemma injector_nth:
  assumes "choice_ok choice" "j < length df"
  shows "add_sequential_patterns choice df ! j =
         (if qualifies df (user_id (df ! j))
          then relabel choice df (user_id (df ! j)) j (df ! j) else df ! j)"
  unfolding add_sequential_patterns_def qualifies_def
  using fold_users_nth [OF assms users_distinct refl] by simp

lemma injector_core: "map core (add_sequential_patterns choice df) = map core df"
  by (simp add: add_sequential_patterns_def)

lemma injector_length: "length (add_sequential_patterns choice df) = length df"
  using injector_core map_core_length by blast

section \<open>Properties of the sampler\<close>

lemma digit_val_char: "d < 10 \<Longrightarrow> digit_val (digit_char d) = d"
proof -
  assume "d < 10"
  then have "d = 0 \<or> d = 1 \<or> d = 2 \<or> d = 3 \<or> d = 4 \<or> d = 5 \<or> d = 6 \<or> d = 7 \<or> d = 8 \<or> d = 9"
    by arith
  then show ?thesis
    by (auto simp: digit_val_def digit_char_def)
qed

lemma digits_val_snoc: "digits_val (s @ [c]) = 10 * digits_val s + digit_val c"
  by (simp add: digits_val_def)

lemma digits_val_digits: "digits_val (digits n) = n"
proof (induction n rule: digits.induct)
  case (1 n)
  show ?case
  proof (cases "n < 10")
    case True
    then show ?thesis
      by (subst digits.simps) (simp add: digits_val_def digit_val_char)
  next
    case False
    then have "digits_val (digits (n div 10)) = n div 10" using 1 by simp
    then show ?thesis using False
      by (subst digits.simps) (simp add: digits_val_snoc digit_val_char)
  qed
qed

lemma digits_val_zeros: "foldl (\<lambda>a c. 10 * a + digit_val c) 0 (replicate k CHR ''0'') = 0"
  by (induction k) (simp_all add: digit_val_def)

lemma digits_val_fmt_d: "digits_val (fmt_d w n) = n"
  using digits_val_digits [of n]
  by (simp add: fmt_d_def digits_val_def digits_val_zeros)

lemma fmt_d_inj: "fmt_d w n = fmt_d w m \<Longrightarrow> n = m"
  by (metis digits_val_fmt_d)

lemma generate_length: "length (generate_synthetic_transactions now hash rate rng n) = n"
  by (simp add: generate_synthetic_transactions_def)

lemma transaction_id_eq: "transaction_id (transaction now hash rate i d) = ''TXN_'' @ fmt_d 8 i"
  by (simp add: transaction_def Let_def)

text \<open>
  Claim C4. A request for \<open>n\<close> samples yields exactly \<open>n\<close> rows; row \<open>i\<close> (counting from
  zero, in generation order) carries the identifier \<^verbatim>\<open>TXN_\<close> followed by \<open>i\<close> in decimal,
  zero-padded to eight digits; and no two rows share an identifier.
\<close>

theorem generate_count_and_ids:
  "length (generate_synthetic_transactions now hash FRAUD_RATE rng n) = n \<and>
   map transaction_id (generate_synthetic_transactions now hash FRAUD_RATE rng n) =
     map (\<lambda>i. ''TXN_'' @ fmt_d 8 i) [0..<n] \<and>
   distinct (map transaction_id (generate_synthetic_transactions now hash FRAUD_RATE rng n))"
proof -
  let ?g = "generate_synthetic_transactions now hash FRAUD_RATE rng n"
  have ids: "map transaction_id ?g = map (\<lambda>i. ''TXN_'' @ fmt_d 8 i) [0..<n]"
    by (simp add: generate_synthetic_transactions_def transaction_id_eq)
  have "inj (\<lambda>i. ''TXN_'' @ fmt_d 8 i)"
    by (rule injI) (simp add: fmt_d_inj)
  then have "distinct (map (\<lambda>i. ''TXN_'' @ fmt_d 8 i) [0..<n])"
    by (simp add: distinct_map inj_on_def)
  then show ?thesis using ids by (simp add: generate_length)
qed

lemma round_half_even_ge_floor: "\<lfloor>x\<rfloor> \<le> round_half_even x"
  unfolding round_half_even_def Let_def by auto

lemma round2_lower: "real_of_int m \<le> x \<Longrightarrow> real_of_int m \<le> round2 x"
proof -
  assume "real_of_int m \<le> x"
  then have "real_of_int (m * 100) \<le> x * 100" by simp
  then have "m * 100 \<le> \<lfloor>x * 100\<rfloor>" by (simp only: le_floor_iff)
  also have "\<dots> \<le> round_half_even (x * 100)" by (rule round_half_even_ge_floor)
  finally have "real_of_int (m * 100) \<le> real_of_int (round_half_even (x * 100))"
    by (simp only: of_int_le_iff)
  then show ?thesis by (simp add: round2_def)
qed

lemma round2_upper: "x \<le> real_of_int m \<Longrightarrow> round2 x \<le> real_of_int m"
proof -
  assume "x \<le> real_of_int m"
  then have "x * 100 \<le> real_of_int (m * 100)" by simp
  then have "\<lceil>x * 100\<rceil> \<le> m * 100" by (simp only: ceiling_le_iff)
  with round_half_even_le_ceiling [of "x * 100"]
  have "round_half_even (x * 100) \<le> m * 100" by linarith
  then have "real_of_int (round_half_even (x * 100)) \<le> real_of_int (m * 100)"
    by (simp only: of_int_le_iff)
  then show ?thesis by (simp add: round2_def)
qed

lemma random_choice_mem: "xs \<noteq> [] \<Longrightarrow> random_choice xs k \<in> set xs"
  by (simp add: random_choice_def)

lemma micro_amount_ge: "(1::real) \<le> random_choice [1, 2, 5, 10] k"
proof -
  have "random_choice [1, 2, 5, 10 :: real] k \<in> set [1, 2, 5, 10]"
    by (rule random_choice_mem) simp
  then show ?thesis by auto
qed

lemma fraud_amount_ge:
  assumes "draws_ok d"
  shows "1 \<le> (if ftype = ''micropay_scam'' then random_choice [1, 2, 5, 10] (d_micro d)
               else if ftype = ''velocity_attack'' then uniform 5000 50000 (d_uniform d)
               else if ftype = ''new_recipient''
               then (1000 + 9000 * d_exp d) * uniform 3 10 (d_uniform d)
               else uniform 1000 20000 (d_uniform d))"
proof -
  have u: "0 \<le> d_uniform d" and e: "0 \<le> d_exp d" using assms by (simp_all add: draws_ok_def)
  have "1 \<le> uniform 5000 50000 (d_uniform d)" "1 \<le> uniform 1000 20000 (d_uniform d)"
    and three: "3 \<le> uniform 3 10 (d_uniform d)"
    using u by (simp_all add: uniform_def)
  moreover have "1000 \<le> 1000 + 9000 * d_exp d" using e by simp
  then have "1000 * 3 \<le> (1000 + 9000 * d_exp d) * uniform 3 10 (d_uniform d)"
    using three by (intro mult_mono) simp_all
  then have "1 \<le> (1000 + 9000 * d_exp d) * uniform 3 10 (d_uniform d)" by simp
  ultimately show ?thesis using micro_amount_ge by simp
qed

lemma transaction_amount:
  assumes "draws_ok d"
  shows "0 < amount (transaction now hash rate i d)"
    and "is_fraud (transaction now hash rate i d) = 0 \<Longrightarrow>
         10 \<le> amount (transaction now hash rate i d) \<and>
         amount (transaction now hash rate i d) \<le> 100000"
proof -
  let ?legit = "min (max 10 ((1000 + 9000 * d_exp d) + (1000 + 9000 * d_exp d) / 3 * d_normal d)) (100000::real)"
  have lo: "real_of_int 10 \<le> ?legit" and hi: "?legit \<le> real_of_int 100000" by simp_all
  have l1: "10 \<le> round2 ?legit" using round2_lower [OF lo] by simp
  have l2: "round2 ?legit \<le> 100000" using round2_upper [OF hi] by simp
  have f: "1 \<le> round2 (if ftype = ''micropay_scam'' then random_choice [1, 2, 5, 10] (d_micro d)
               else if ftype = ''velocity_attack'' then uniform 5000 50000 (d_uniform d)
               else if ftype = ''new_recipient''
               then (1000 + 9000 * d_exp d) * uniform 3 10 (d_uniform d)
               else uniform 1000 20000 (d_uniform d))" for ftype
    using round2_lower [of 1] fraud_amount_ge [OF assms, of ftype] by simp
  show "0 < amount (transaction now hash rate i d)"
  proof (cases "d_fraud d < rate")
    case True
    then show ?thesis
      using f [of "random_choice [''micropay_scam'', ''velocity_attack'', ''new_recipient'', ''fake_refund''] (d_archetype d)"]
      by (simp add: transaction_def Let_def)
  next
    case False
    then show ?thesis using l1 by (simp add: transaction_def Let_def)
  qed
  show "10 \<le> amount (transaction now hash rate i d) \<and>
         amount (transaction now hash rate i d) \<le> 100000"
    if "is_fraud (transaction now hash rate i d) = 0"
  proof -
    from that have "\<not> d_fraud d < rate"
      by (auto simp add: transaction_def Let_def split: if_splits)
    then show ?thesis using l1 l2 by (simp add: transaction_def Let_def)
  qed
qed

lemma generate_set:
  "r \<in> set (generate_synthetic_transactions now hash rate rng n) \<longleftrightarrow>
   (\<exists>i<n. r = transaction now hash rate i (rng i))"
  by (auto simp: generate_synthetic_transactions_def)

text \<open>
  Claim C6. When the draws lie in the ranges of their distributions, every generated
  row has a positive amount, whatever its fraud status and archetype; a legitimate row
  has its amount between 10 and 100000.
\<close>

theorem generated_amount_positive:
  assumes "\<forall>i<n. draws_ok (rng i)"
  shows "\<forall>r \<in> set (generate_synthetic_transactions now hash FRAUD_RATE rng n).
           0 < amount r \<and> (is_fraud r = 0 \<longrightarrow> 10 \<le> amount r \<and> amount r \<le> 100000)"
  using assms transaction_amount by (auto simp: generate_set)

lemma draws_a_ok: "draws_ok draws_a"
  by (simp add: draws_ok_def draws_a_def)

theorem generated_amount_positive_witness:
  "draws_ok draws_a \<and>
   transaction 0 (\<lambda>s. 7) (1 / 10) 1 draws_a
     \<in> set (generate_synthetic_transactions 0 (\<lambda>s. 7) (1 / 10) (\<lambda>i. draws_a) 2) \<and>
   0 < amount (transaction 0 (\<lambda>s. 7) (1 / 10) 1 draws_a) \<and>
   is_fraud (transaction 0 (\<lambda>s. 7) (1 / 10) 1 draws_a) = 0 \<and>
   10 \<le> amount (transaction 0 (\<lambda>s. 7) (1 / 10) 1 draws_a)"
proof -
  have h: "\<forall>i<2::nat. draws_ok ((\<lambda>i. draws_a) i)" by (simp add: draws_a_ok)
  have m: "transaction 0 (\<lambda>s. 7) (1 / 10) 1 draws_a
     \<in> set (generate_synthetic_transactions 0 (\<lambda>s. 7) (1 / 10) (\<lambda>i. draws_a) 2)"
    unfolding generate_set by (intro exI [of _ 1]) simp
  have z: "is_fraud (transaction 0 (\<lambda>s. 7) (1 / 10) 1 draws_a) = 0"
    by (simp add: transaction_def Let_def draws_a_def)
  show ?thesis
    using generated_amount_positive [OF h, of 0 "\<lambda>s. 7" "1 / 10"] m z draws_a_ok by blast
qed

lemma relabelled_refl: "list_all2 relabelled df df"
  by (simp add: list_all2_conv_all_nth relabelled_def)

lemma relabelled_mark:
  assumes "relabelled r r'" "l = ''velocity_attack'' \<or> l = ''micropay_scam''"
  shows "relabelled r (mark l r')"
  using assms by (auto simp: relabelled_def)

lemma relabelled_update:
  assumes "list_all2 relabelled df d" "l = ''velocity_attack'' \<or> l = ''micropay_scam''"
  shows "list_all2 relabelled df (d[i := mark l (d ! i)])"
proof -
  have len: "length df = length d" using assms(1) by (rule list_all2_lengthD)
  have "relabelled (df ! j) (d[i := mark l (d ! i)] ! j)" if "j < length df" for j
  proof -
    have "relabelled (df ! j) (d ! j)" using assms(1) that by (rule list_all2_nthD)
    then show ?thesis
      using relabelled_mark [OF _ assms(2)] that len by (cases "i = j") simp_all
  qed
  then show ?thesis using len by (simp add: list_all2_conv_all_nth)
qed

lemma relabelled_set_fraud:
  assumes "l = ''velocity_attack'' \<or> l = ''micropay_scam''"
  shows "list_all2 relabelled df d \<Longrightarrow> list_all2 relabelled df (set_fraud l d idxs)"
  unfolding set_fraud_def
  by (induction idxs arbitrary: d) (simp_all add: relabelled_update [OF _ assms])

lemma relabelled_micropay_step:
  "list_all2 relabelled df d \<Longrightarrow> list_all2 relabelled df (micropay_step idxs d i)"
  by (simp add: micropay_step_def Let_def relabelled_update)

lemma relabelled_micropay_fold:
  "list_all2 relabelled df d \<Longrightarrow> list_all2 relabelled df (foldl (micropay_step idxs) d is)"
  by (induction "is" arbitrary: d) (simp_all add: relabelled_micropay_step)

lemma relabelled_process_user:
  "list_all2 relabelled df d \<Longrightarrow> list_all2 relabelled df (process_user choice d u)"
  by (simp add: process_user_def add_micropay_def add_velocity_def Let_def
      relabelled_micropay_fold relabelled_set_fraud)

lemma relabelled_fold_users:
  "list_all2 relabelled df d \<Longrightarrow> list_all2 relabelled df (foldl (process_user choice) d us)"
  by (induction us arbitrary: d) (simp_all add: relabelled_process_user)

lemma injector_relabelled: "list_all2 relabelled df (add_sequential_patterns choice df)"
  unfolding add_sequential_patterns_def by (rule relabelled_fold_users) (rule relabelled_refl)

lemma relabelled_consistent:
  assumes "relabelled r r'" "fraud_type r = ''legitimate'' \<longleftrightarrow> is_fraud r = 0"
  shows "fraud_type r' = ''legitimate'' \<longleftrightarrow> is_fraud r' = 0"
  using assms by (auto simp: relabelled_def mark_def)

lemma archetype_cases:
  "random_choice [''micropay_scam'', ''velocity_attack'', ''new_recipient'', ''fake_refund''] k
     \<in> {''micropay_scam'', ''velocity_attack'', ''new_recipient'', ''fake_refund''}"
  using random_choice_mem
    [of "[''micropay_scam'', ''velocity_attack'', ''new_recipient'', ''fake_refund'']" k]
  by simp

lemma transaction_consistent:
  "fraud_type (transaction now hash rate i d) = ''legitimate'' \<longleftrightarrow>
   is_fraud (transaction now hash rate i d) = 0"
  using archetype_cases [of "d_archetype d"]
  by (auto simp: transaction_def Let_def)

lemma injector_preserves_consistency:
  assumes "\<forall>r \<in> set df. fraud_type r = ''legitimate'' \<longleftrightarrow> is_fraud r = 0"
  shows "\<forall>r \<in> set (add_sequential_patterns choice df).
           fraud_type r = ''legitimate'' \<longleftrightarrow> is_fraud r = 0"
proof
  fix r' assume "r' \<in> set (add_sequential_patterns choice df)"
  then obtain j where j: "j < length (add_sequential_patterns choice df)"
    and r': "r' = add_sequential_patterns choice df ! j"
    by (auto simp: in_set_conv_nth)
  have len: "length df = length (add_sequential_patterns choice df)"
    using injector_relabelled by (rule list_all2_lengthD)
  have rel: "relabelled (df ! j) r'"
    unfolding r' using list_all2_nthD [OF injector_relabelled, of j df choice] j len by simp
  have "df ! j \<in> set df" using j len by simp
  then show "fraud_type r' = ''legitimate'' \<longleftrightarrow> is_fraud r' = 0"
    using relabelled_consistent [OF rel] assms by blast
qed

text \<open>
  Claim C5. At both stages, after generation and after injection, a row has
  \<^verbatim>\<open>fraud_type == 'legitimate'\<close> exactly when its \<^verbatim>\<open>is_fraud\<close> is 0. The injector leaves
  a row as it was or sets \<^verbatim>\<open>is_fraud = 1\<close> together with one of the two labels
  \<^verbatim>\<open>velocity_attack\<close> and \<^verbatim>\<open>micropay_scam\<close>.
\<close>

theorem fraud_label_consistency:
  "(\<forall>r \<in> set (generate_synthetic_transactions now hash FRAUD_RATE rng n).
      fraud_type r = ''legitimate'' \<longleftrightarrow> is_fraud r = 0) \<and>
   (\<forall>r \<in> set (pipeline choice now hash FRAUD_RATE rng n).
      fraud_type r = ''legitimate'' \<longleftrightarrow> is_fraud r = 0) \<and>
   list_all2 relabelled (generate_synthetic_transactions now hash FRAUD_RATE rng n)
     (pipeline choice now hash FRAUD_RATE rng n)"
proof -
  have g: "\<forall>r \<in> set (generate_synthetic_transactions now hash FRAUD_RATE rng n).
      fraud_type r = ''legitimate'' \<longleftrightarrow> is_fraud r = 0"
    using transaction_consistent by (auto simp: generate_set)
  show ?thesis
    using g injector_preserves_consistency [OF g] injector_relabelled
    by (simp add: pipeline_def)
qed

theorem fraud_label_consistency_witness:
  "transaction 0 (\<lambda>s. 7) (3 / 4) 0 draws_a
     \<in> set (generate_synthetic_transactions 0 (\<lambda>s. 7) (3 / 4) (\<lambda>i. draws_a) 1) \<and>
   is_fraud (transaction 0 (\<lambda>s. 7) (3 / 4) 0 draws_a) = 1 \<and>
   fraud_type (transaction 0 (\<lambda>s. 7) (3 / 4) 0 draws_a) \<noteq> ''legitimate'' \<and>
   pipeline last_rows 0 (\<lambda>s. 7) (3 / 4) (\<lambda>i. draws_a) 1 \<noteq> [] \<and>
   (fraud_type (hd (pipeline last_rows 0 (\<lambda>s. 7) (3 / 4) (\<lambda>i. draws_a) 1)) = ''legitimate''
      \<longleftrightarrow> is_fraud (hd (pipeline last_rows 0 (\<lambda>s. 7) (3 / 4) (\<lambda>i. draws_a) 1)) = 0)"
proof -
  note inst = fraud_label_consistency [of 0 "\<lambda>s. 7" "3 / 4" "\<lambda>i. draws_a" 1 last_rows]
  have m: "transaction 0 (\<lambda>s. 7) (3 / 4) 0 draws_a
     \<in> set (generate_synthetic_transactions 0 (\<lambda>s. 7) (3 / 4) (\<lambda>i. draws_a) 1)"
    by (simp add: generate_set)
  have f: "is_fraud (transaction 0 (\<lambda>s. 7) (3 / 4) 0 draws_a) = 1"
    by (simp add: transaction_def Let_def draws_a_def)
  have ne: "pipeline last_rows 0 (\<lambda>s. 7) (3 / 4) (\<lambda>i. draws_a) 1 \<noteq> []"
    using injector_length [of last_rows "generate_synthetic_transactions 0 (\<lambda>s. 7) (3 / 4) (\<lambda>i. draws_a) 1"]
    by (auto simp: pipeline_def generate_length)
  then have "hd (pipeline last_rows 0 (\<lambda>s. 7) (3 / 4) (\<lambda>i. draws_a) 1)
     \<in> set (pipeline last_rows 0 (\<lambda>s. 7) (3 / 4) (\<lambda>i. draws_a) 1)"
    by simp
  then show ?thesis using inst m f ne by auto
qed

lemma other_columns_core: "other_columns (core r) = other_columns r"
  by (simp add: other_columns_def core_def)

lemma map_other_columns: "map other_columns (map core df) = map other_columns df"
  by (simp add: other_columns_core)

lemma last_rows_ok: "choice_ok last_rows"
  unfolding choice_ok_def last_rows_def by simp

lemma users_core: "map core d = map core d' \<Longrightarrow> users d = users d'"
proof -
  assume a: "map core d = map core d'"
  have "map user_id x = map user_id (map core x)" for x
    by (simp add: comp_def core_fields(1))
  then have "map user_id d = map user_id d'" using a by metis
  then show ?thesis by (simp add: users_def)
qed

lemma micropay_targets_core:
  assumes "map core d = map core d'"
  shows "micropay_targets d u = micropay_targets d' u"
proof -
  let ?idxs = "user_indices d u"
  let ?is = "[1..<length ?idxs - 1]"
  have ui: "user_indices d' u = ?idxs" using assms by (rule user_indices_core [symmetric])
  have same: "micropay_cond d (?idxs ! i) (?idxs ! (i + 1)) =
              micropay_cond d' (?idxs ! i) (?idxs ! (i + 1))"
    if "i \<in> set ?is" for i
  proof -
    from that have "i < length ?idxs" "i + 1 < length ?idxs" by auto
    then have "?idxs ! i \<in> set ?idxs" "?idxs ! (i + 1) \<in> set ?idxs"
      by (simp_all only: nth_mem)
    then have a: "?idxs ! i < length d" and b: "?idxs ! (i + 1) < length d"
      by (simp_all only: user_indices_bound)
    show ?thesis by (rule micropay_cond_core [OF assms a b])
  qed
  have "filter (\<lambda>i. micropay_cond d (?idxs ! i) (?idxs ! (i + 1))) ?is =
        filter (\<lambda>i. micropay_cond d' (?idxs ! i) (?idxs ! (i + 1))) ?is"
  proof (rule filter_cong [OF refl])
    fix i assume "i \<in> set ?is"
    then show "micropay_cond d (?idxs ! i) (?idxs ! (i + 1)) =
               micropay_cond d' (?idxs ! i) (?idxs ! (i + 1))"
      by (rule same)
  qed
  then show ?thesis unfolding micropay_targets_def ui Let_def by (simp only:)
qed

lemma qualifies_core: "map core d = map core d' \<Longrightarrow> qualifies d u = qualifies d' u"
  by (simp add: qualifies_def users_core [of d d'] user_indices_core [of d d'])

lemma relabel_core: "map core d = map core d' \<Longrightarrow> relabel choice d u j r = relabel choice d' u j r"
  by (simp add: relabel_def micropay_targets_core [of d d'] fraud_indices_core [of d d'])

lemma relabel_twice: "relabel choice df u j (relabel choice df u j r) = relabel choice df u j r"
  by (simp add: relabel_def)

text \<open>
  Claim C7. The injector keeps the number of rows and, in every row, the columns
  \<^verbatim>\<open>transaction_id\<close>, \<^verbatim>\<open>user_id\<close>, \<^verbatim>\<open>timestamp\<close>, \<^verbatim>\<open>amount\<close>, \<^verbatim>\<open>recipient_id\<close>,
  \<^verbatim>\<open>transaction_type\<close>, \<^verbatim>\<open>device_id\<close> and \<^verbatim>\<open>location\<close>; a row whose user is not among
  the tracked users is returned as it was, in all its columns.
\<close>

theorem injector_frame:
  "length (add_sequential_patterns choice df) = length df \<and>
   map other_columns (add_sequential_patterns choice df) = map other_columns df \<and>
   (choice_ok choice \<longrightarrow>
      (\<forall>j<length df. user_id (df ! j) \<notin> set (users df) \<longrightarrow>
         add_sequential_patterns choice df ! j = df ! j))"
proof -
  have "map other_columns (map core (add_sequential_patterns choice df)) =
        map other_columns (map core df)"
    by (simp only: injector_core)
  then have "map other_columns (add_sequential_patterns choice df) = map other_columns df"
    by (simp only: map_other_columns)
  then show ?thesis
    by (simp add: injector_length injector_nth qualifies_def)
qed

theorem injector_frame_witness:
  "(100::nat) < length df_many \<and>
   user_id (df_many ! 100) \<notin> set (users df_many) \<and>
   add_sequential_patterns last_rows df_many ! 100 = df_many ! 100"
proof -
  have j: "(100::nat) < length df_many" by (simp add: df_many_def)
  have u: "user_id (df_many ! 100) \<notin> set (users df_many)" by code_simp
  show ?thesis
    using injector_frame [of last_rows df_many] last_rows_ok j u by blast
qed

text \<open>
  Claim C8. With the same sampler, running the injector on its own output returns that
  output.
\<close>

theorem injector_idempotent:
  assumes "choice_ok choice"
  shows "add_sequential_patterns choice (add_sequential_patterns choice df) =
         add_sequential_patterns choice df"
proof (rule nth_equalityI)
  let ?out = "add_sequential_patterns choice df"
  show "length (add_sequential_patterns choice ?out) = length ?out"
    by (simp only: injector_length)
  fix j assume "j < length (add_sequential_patterns choice ?out)"
  then have j: "j < length df" and j': "j < length ?out" by (simp_all only: injector_length)
  have c: "map core ?out = map core df" by (rule injector_core)
  have "core (?out ! j) = core (df ! j)" using map_core_nth [OF c j'] .
  then have u: "user_id (?out ! j) = user_id (df ! j)" by (rule core_eq_fields(1))
  let ?u = "user_id (df ! j)"
  have first: "?out ! j = (if qualifies df ?u then relabel choice df ?u j (df ! j) else df ! j)"
    using injector_nth [OF assms j] .
  have "add_sequential_patterns choice ?out ! j =
        (if qualifies ?out ?u then relabel choice ?out ?u j (?out ! j) else ?out ! j)"
    using injector_nth [OF assms j'] u by simp
  also have "\<dots> = (if qualifies df ?u then relabel choice df ?u j (?out ! j) else ?out ! j)"
    by (simp only: qualifies_core [OF c] relabel_core [OF c])
  also have "\<dots> = ?out ! j"
    by (simp add: first relabel_twice)
  finally show "add_sequential_patterns choice ?out ! j = ?out ! j" .
qed

theorem injector_idempotent_witness:
  "add_sequential_patterns last_rows (add_sequential_patterns last_rows df_last_pair) =
   add_sequential_patterns last_rows df_last_pair"
  using injector_idempotent [OF last_rows_ok, of df_last_pair] last_rows_ok by simp

lemma micropay_targets_mem:
  assumes "1 \<le> i" "i + 1 < length (user_indices df u)"
    "micropay_cond df (user_indices df u ! i) (user_indices df u ! (i + 1))"
  shows "user_indices df u ! (i + 1) \<in> set (micropay_targets df u)"
proof -
  have "i \<in> {i \<in> set [1..<length (user_indices df u) - 1].
          micropay_cond df (user_indices df u ! i) (user_indices df u ! (i + 1))}"
    using assms by auto
  then show ?thesis unfolding micropay_targets_set by (rule imageI)
qed

lemma micropay_pair_relabelled:
  assumes "choice_ok choice" "qualifies df u" "1 \<le> i" "i + 1 < length (user_indices df u)"
    "micropay_cond df (user_indices df u ! i) (user_indices df u ! (i + 1))"
  shows "add_sequential_patterns choice df ! (user_indices df u ! (i + 1)) =
         mark ''micropay_scam'' (df ! (user_indices df u ! (i + 1)))"
proof -
  let ?j = "user_indices df u ! (i + 1)"
  have "?j \<in> set (user_indices df u)" using assms(4) by (rule nth_mem)
  then have j: "?j < length df" and uj: "user_id (df ! ?j) = u"
    by (simp_all add: user_indices_user)
  have "?j \<in> set (micropay_targets df u)"
    using assms(3,4,5) by (rule micropay_targets_mem)
  then show ?thesis
    using injector_nth [OF assms(1) j] assms(2) uj by (simp add: relabel_def)
qed

lemma second_row_not_target:
  assumes "1 < length (user_indices df u)"
  shows "user_indices df u ! 1 \<notin> set (micropay_targets df u)"
proof
  let ?idxs = "user_indices df u"
  assume "?idxs ! 1 \<in> set (micropay_targets df u)"
  then obtain i where i: "1 \<le> i" "i < length ?idxs - 1" and eq: "?idxs ! 1 = ?idxs ! (i + 1)"
    unfolding micropay_targets_set by auto
  have "i + 1 < length ?idxs" using i by simp
  then have "1 = i + 1"
    using eq assms user_indices_distinct [of df u] by (simp add: nth_eq_iff_index_eq)
  then show False using i by simp
qed

lemma first_pair_skipped:
  assumes "choice_ok choice" "1 < length (user_indices df u)"
  shows "add_sequential_patterns choice df ! (user_indices df u ! 1) = df ! (user_indices df u ! 1) \<or>
         add_sequential_patterns choice df ! (user_indices df u ! 1) =
           mark ''velocity_attack'' (df ! (user_indices df u ! 1))"
proof -
  let ?j = "user_indices df u ! 1"
  have "?j \<in> set (user_indices df u)" using assms(2) by (rule nth_mem)
  then have j: "?j < length df" and uj: "user_id (df ! ?j) = u"
    by (simp_all add: user_indices_user)
  show ?thesis
    using injector_nth [OF assms(1) j] second_row_not_target [OF assms(2)] uj
    by (simp add: relabel_def)
qed

text \<open>
  Claim C1. A tracked user has eleven rows; the first two are an adjacent pair with
  amounts 5 and 15000, 120 seconds apart. The claim has the second row relabelled
  \<^verbatim>\<open>micropay_scam\<close>; the loop starts at index 1 of the user's rows, never looks at the
  pair of rows 0 and 1, and the row keeps \<^verbatim>\<open>is_fraud = 0\<close> and \<^verbatim>\<open>legitimate\<close>.
\<close>

theorem first_pair_not_relabelled:
  "''USER_0007'' \<in> set (users df_first_pair) \<and>
   user_indices df_first_pair ''USER_0007'' = [0, 1, 2, 3, 4, 5, 6, 7, 8, 9, 10] \<and>
   amount (df_first_pair ! 0) = 5 \<and> amount (df_first_pair ! 1) = 15000 \<and>
   timestamp (df_first_pair ! 1) - timestamp (df_first_pair ! 0) = 120 * 1000000 \<and>
   map is_fraud (add_sequential_patterns last_rows df_first_pair) =
     [1, 0, 0, 0, 0, 0, 0, 0, 0, 0, 1] \<and>
   map fraud_type (add_sequential_patterns last_rows df_first_pair) =
     [''micropay_scam'', ''legitimate'', ''legitimate'', ''legitimate'', ''legitimate'',
      ''legitimate'', ''legitimate'', ''legitimate'', ''legitimate'', ''legitimate'',
      ''velocity_attack'']"
  by code_simp

lemma unique_first_seen:
  "unique xs = map (\<lambda>j. xs ! j) (filter (\<lambda>j. xs ! j \<notin> set (take j xs)) [0..<length xs])"
proof (induction xs rule: rev_induct)
  case Nil
  then show ?case by (simp add: unique_def)
next
  case (snoc x xs)
  let ?n = "length xs"
  define P where "P = (\<lambda>j. (xs @ [x]) ! j \<notin> set (take j (xs @ [x])))"
  define Q where "Q = (\<lambda>j. xs ! j \<notin> set (take j xs))"
  have f: "filter P [0..<?n] = filter Q [0..<?n]"
    unfolding P_def Q_def by (rule filter_cong [OF refl]) (simp add: nth_append)
  have m: "map (\<lambda>j. (xs @ [x]) ! j) (filter Q [0..<?n]) = map (\<lambda>j. xs ! j) (filter Q [0..<?n])"
    by (rule map_cong [OF refl]) (simp add: nth_append)
  have l: "P ?n \<longleftrightarrow> x \<notin> set xs" unfolding P_def by simp
  have "map (\<lambda>j. (xs @ [x]) ! j) (filter P [0..<length (xs @ [x])]) =
        map (\<lambda>j. (xs @ [x]) ! j) (filter P [0..<?n]) @ (if x \<in> set xs then [] else [x])"
    using l by simp
  also have "\<dots> = map (\<lambda>j. xs ! j) (filter Q [0..<?n]) @ (if x \<in> set xs then [] else [x])"
    by (simp only: f m)
  also have "\<dots> = unique (xs @ [x])"
    unfolding Q_def by (simp add: unique_snoc snoc.IH [symmetric])
  finally show ?case unfolding P_def by (rule sym)
qed

lemma users_first_seen:
  "users df =
     take 100 (map (\<lambda>j. user_id (df ! j))
       (filter (\<lambda>j. user_id (df ! j) \<notin> user_id ` set (take j df)) [0..<length df]))"
proof -
  let ?xs = "map user_id df"
  have f: "filter (\<lambda>j. ?xs ! j \<notin> set (take j ?xs)) [0..<length df] =
           filter (\<lambda>j. user_id (df ! j) \<notin> user_id ` set (take j df)) [0..<length df]"
    by (rule filter_cong [OF refl]) (simp add: take_map)
  have m: "map (\<lambda>j. ?xs ! j) (filter (\<lambda>j. user_id (df ! j) \<notin> user_id ` set (take j df)) [0..<length df]) =
           map (\<lambda>j. user_id (df ! j)) (filter (\<lambda>j. user_id (df ! j) \<notin> user_id ` set (take j df)) [0..<length df])"
    by (rule map_cong [OF refl]) simp
  show ?thesis
    unfolding users_def unique_first_seen [of ?xs] by (simp add: f m)
qed

lemma user_indices_sorted: "sorted (user_indices df u)"
  unfolding user_indices_def by (rule sorted_wrt_filter) simp

lemma user_indices_set: "set (user_indices df u) = {j. j < length df \<and> user_id (df ! j) = u}"
  by (auto simp: user_indices_user)

lemma micropay_targets_none:
  assumes "\<forall>r \<in> set df. 10 < amount r"
  shows "micropay_targets df u = []"
proof -
  let ?idxs = "user_indices df u"
  have "\<not> micropay_cond df (?idxs ! i) (?idxs ! (i + 1))" if "i \<in> set [1..<length ?idxs - 1]" for i
  proof -
    from that have "i < length ?idxs" by auto
    then have "?idxs ! i \<in> set ?idxs" by (rule nth_mem)
    then have "?idxs ! i < length df" by (rule user_indices_bound)
    then have "df ! (?idxs ! i) \<in> set df" by (rule nth_mem)
    then have "10 < amount (df ! (?idxs ! i))" using assms by blast
    then show ?thesis by (simp add: micropay_cond_def)
  qed
  then have "filter (\<lambda>i. micropay_cond df (?idxs ! i) (?idxs ! (i + 1))) [1..<length ?idxs - 1] = []"
    by (simp only: filter_empty_conv) blast
  then show ?thesis by (simp add: micropay_targets_def Let_def)
qed

lemma df_mixed_amounts: "\<forall>r \<in> set df_mixed. 10 < amount r"
  by (auto simp add: df_mixed_def filler_def row_def simp del: upt_rec_numeral)

lemma df_mixed_users:
  "users df_mixed = ''USER_0500'' # map (\<lambda>i. ''USER_'' @ fmt_d 4 i) [1..<100]"
  by code_simp

text \<open>
  Claim C3, as stated, fails: a tracked user has 25 rows, the velocity sample is the
  two rows 23 and 24, and the micropay loop of the same iteration then writes
  \<^verbatim>\<open>micropay_scam\<close> over row 24. A sampled row is not labelled \<^verbatim>\<open>velocity_attack\<close> in
  the table the injector returns.
\<close>

theorem sampled_row_ends_micropay:
  "''USER_0007'' \<in> set (users df_tail_pair) \<and>
   length (user_indices df_tail_pair ''USER_0007'') = 25 \<and>
   fraud_indices last_rows df_tail_pair ''USER_0007'' = [23, 24] \<and>
   fraud_type (add_velocity last_rows df_tail_pair ''USER_0007'' ! 24) = ''velocity_attack'' \<and>
   fraud_type (add_sequential_patterns last_rows df_tail_pair ! 23) = ''velocity_attack'' \<and>
   fraud_type (add_sequential_patterns last_rows df_tail_pair ! 24) = ''micropay_scam''"
  by code_simp

text \<open>
  Claim C3, amended. The tracked users are the first 100 distinct values of the
  \<^verbatim>\<open>user_id\<close> column in order of first appearance: the users of the rows whose user
  occurs in no earlier row, in row order, cut after 100. The rows of a user are the
  positions of that user's rows in ascending order. For a tracked user with more than
  10 rows, the sample consists of \<open>round (n / 10)\<close> (ties to even) distinct rows among
  the user's \<open>n\<close> rows; in the table the injector returns, a sampled row has
  \<^verbatim>\<open>is_fraud = 1\<close> and \<^verbatim>\<open>fraud_type = 'velocity_attack'\<close>, whatever its label was,
  except when the micropay loop of the same user relabelled it afterwards, and then it
  carries \<^verbatim>\<open>micropay_scam\<close>; a row of that user outside the sample is unchanged unless
  the micropay loop relabelled it. A row of any other user (not tracked, or with 10
  rows or fewer) is returned unchanged.
\<close>

theorem velocity_sample_in_result:
  assumes "choice_ok choice"
  shows
    "users df =
       take 100 (map (\<lambda>j. user_id (df ! j))
         (filter (\<lambda>j. user_id (df ! j) \<notin> user_id ` set (take j df)) [0..<length df])) \<and>
     (\<forall>u. sorted (user_indices df u) \<and> distinct (user_indices df u) \<and>
          set (user_indices df u) = {j. j < length df \<and> user_id (df ! j) = u}) \<and>
     (\<forall>u \<in> set (users df). 10 < length (user_indices df u) \<longrightarrow>
        length (fraud_indices choice df u) =
          nat (round_half_even (real (length (user_indices df u)) / 10)) \<and>
        distinct (fraud_indices choice df u) \<and>
        set (fraud_indices choice df u) \<subseteq> set (user_indices df u) \<and>
        (\<forall>j \<in> set (user_indices df u).
           add_sequential_patterns choice df ! j =
             (if j \<in> set (micropay_targets df u)
              then (df ! j)\<lparr>is_fraud := 1, fraud_type := ''micropay_scam''\<rparr>
              else if j \<in> set (fraud_indices choice df u)
              then (df ! j)\<lparr>is_fraud := 1, fraud_type := ''velocity_attack''\<rparr>
              else df ! j))) \<and>
     (\<forall>j<length df.
        user_id (df ! j) \<notin> set (users df) \<or> length (user_indices df (user_id (df ! j))) \<le> 10 \<longrightarrow>
        add_sequential_patterns choice df ! j = df ! j)"
proof (intro conjI allI ballI impI)
  show "users df =
       take 100 (map (\<lambda>j. user_id (df ! j))
         (filter (\<lambda>j. user_id (df ! j) \<notin> user_id ` set (take j df)) [0..<length df]))"
    by (rule users_first_seen)
next
  fix u
  show "sorted (user_indices df u)" by (rule user_indices_sorted)
  show "distinct (user_indices df u)" by (rule user_indices_distinct)
  show "set (user_indices df u) = {j. j < length df \<and> user_id (df ! j) = u}"
    by (rule user_indices_set)
next
  fix u
  show "length (fraud_indices choice df u) =
          nat (round_half_even (real (length (user_indices df u)) / 10))"
    using fraud_indices_props(1) [OF assms] by (simp add: sample_size_def)
  show "distinct (fraud_indices choice df u)" by (rule fraud_indices_props(2) [OF assms])
  show "set (fraud_indices choice df u) \<subseteq> set (user_indices df u)"
    by (rule fraud_indices_props(3) [OF assms])
next
  fix u j
  assume u: "u \<in> set (users df)" and n: "10 < length (user_indices df u)"
    and "j \<in> set (user_indices df u)"
  then have j: "j < length df" and uj: "user_id (df ! j) = u"
    by (simp_all add: user_indices_user)
  have "qualifies df u" using u n by (simp add: qualifies_def)
  then show "add_sequential_patterns choice df ! j =
             (if j \<in> set (micropay_targets df u)
              then (df ! j)\<lparr>is_fraud := 1, fraud_type := ''micropay_scam''\<rparr>
              else if j \<in> set (fraud_indices choice df u)
              then (df ! j)\<lparr>is_fraud := 1, fraud_type := ''velocity_attack''\<rparr>
              else df ! j)"
    using injector_nth [OF assms j] uj by (simp add: relabel_def mark_def)
next
  fix j
  assume j: "j < length df"
    and "user_id (df ! j) \<notin> set (users df) \<or> length (user_indices df (user_id (df ! j))) \<le> 10"
  then have "\<not> qualifies df (user_id (df ! j))" by (auto simp: qualifies_def)
  then show "add_sequential_patterns choice df ! j = df ! j"
    using injector_nth [OF assms j] by simp
qed

theorem velocity_sample_in_result_witness:
  "''USER_0500'' \<in> set (users df_mixed) \<and> ''USER_0099'' \<in> set (users df_mixed) \<and>
   ''USER_0100'' \<notin> set (users df_mixed) \<and>
   user_indices df_mixed ''USER_0500'' = [0, 1, 102, 103, 104, 105, 106, 107, 108, 109, 110] \<and>
   user_indices df_mixed ''USER_0099'' = [100, 111, 112, 113, 114, 115, 116, 117, 118, 119, 120] \<and>
   length (fraud_indices last_rows df_mixed ''USER_0500'') = 1 \<and>
   add_sequential_patterns last_rows df_mixed ! 110 =
     (df_mixed ! 110)\<lparr>is_fraud := 1, fraud_type := ''velocity_attack''\<rparr> \<and>
   add_sequential_patterns last_rows df_mixed ! 120 =
     (df_mixed ! 120)\<lparr>is_fraud := 1, fraud_type := ''velocity_attack''\<rparr> \<and>
   add_sequential_patterns last_rows df_mixed ! 109 = df_mixed ! 109 \<and>
   user_id (df_mixed ! 101) = ''USER_0100'' \<and>
   add_sequential_patterns last_rows df_mixed ! 101 = df_mixed ! 101"
proof -
  note inst = velocity_sample_in_result [OF last_rows_ok, of df_mixed]
  note per_user = inst [THEN conjunct2, THEN conjunct2, THEN conjunct1, rule_format]
  note other = inst [THEN conjunct2, THEN conjunct2, THEN conjunct2, rule_format]
  have f99: "''USER_'' @ fmt_d 4 99 = ''USER_0099''" by code_simp
  have f100: "''USER_'' @ fmt_d 4 100 = ''USER_0100''" by code_simp
  have a: "''USER_0500'' \<in> set (users df_mixed)" by (simp add: df_mixed_users)
  have "99 \<in> set [1..<100::nat]" by simp
  then have "(\<lambda>i. ''USER_'' @ fmt_d 4 i) 99 \<in> (\<lambda>i. ''USER_'' @ fmt_d 4 i) ` set [1..<100]"
    by (rule imageI)
  then have b: "''USER_0099'' \<in> set (users df_mixed)"
    unfolding df_mixed_users f99 by (simp only: set_map list.set(2) insert_iff) simp
  have "''USER_'' @ fmt_d 4 100 \<notin> (\<lambda>i. ''USER_'' @ fmt_d 4 i) ` set [1..<100]"
    by (auto dest: fmt_d_inj)
  then have c: "''USER_0100'' \<notin> set (users df_mixed)"
    unfolding df_mixed_users f100 by (simp only: set_map list.set(2) insert_iff) simp
  have ia: "user_indices df_mixed ''USER_0500'' = [0, 1, 102, 103, 104, 105, 106, 107, 108, 109, 110]"
    by code_simp
  have ib: "user_indices df_mixed ''USER_0099'' = [100, 111, 112, 113, 114, 115, 116, 117, 118, 119, 120]"
    by code_simp
  have r: "sample_size 11 = 1" by (simp add: sample_size_def round_half_even_def)
  have lr: "last_rows 11 1 = [10]" by (simp add: last_rows_def)
  have la: "length (user_indices df_mixed ''USER_0500'') = 11" by (simp add: ia)
  have lb: "length (user_indices df_mixed ''USER_0099'') = 11" by (simp add: ib)
  have fa: "fraud_indices last_rows df_mixed ''USER_0500'' = [110]"
    unfolding fraud_indices_def Let_def la r lr by (simp add: ia)
  have fb: "fraud_indices last_rows df_mixed ''USER_0099'' = [120]"
    unfolding fraud_indices_def Let_def lb r lr by (simp add: ib)
  note ma = micropay_targets_none [OF df_mixed_amounts, of "''USER_0500''"]
  note mb = micropay_targets_none [OF df_mixed_amounts, of "''USER_0099''"]
  have u: "user_id (df_mixed ! 101) = ''USER_0100''" by code_simp
  have len: "(101::nat) < length df_mixed" by (simp add: df_mixed_def)
  have na: "10 < length (user_indices df_mixed ''USER_0500'')" by (simp add: ia)
  have nb: "10 < length (user_indices df_mixed ''USER_0099'')" by (simp add: ib)
  have 1: "length (fraud_indices last_rows df_mixed ''USER_0500'') = 1"
    using per_user [OF a na] by (simp add: fa)
  have 2: "add_sequential_patterns last_rows df_mixed ! 110 =
     (df_mixed ! 110)\<lparr>is_fraud := 1, fraud_type := ''velocity_attack''\<rparr>"
    using per_user [OF a na, THEN conjunct2, THEN conjunct2, THEN conjunct2, rule_format, of 110]
    by (simp add: ia fa ma)
  have 3: "add_sequential_patterns last_rows df_mixed ! 120 =
     (df_mixed ! 120)\<lparr>is_fraud := 1, fraud_type := ''velocity_attack''\<rparr>"
    using per_user [OF b nb, THEN conjunct2, THEN conjunct2, THEN conjunct2, rule_format, of 120]
    by (simp add: ib fb mb)
  have 4: "add_sequential_patterns last_rows df_mixed ! 109 = df_mixed ! 109"
    using per_user [OF a na, THEN conjunct2, THEN conjunct2, THEN conjunct2, rule_format, of 109]
    by (simp add: ia fa ma)
  have 5: "add_sequential_patterns last_rows df_mixed ! 101 = df_mixed ! 101"
    using other [OF len] c by (simp add: u)
  show ?thesis by (intro conjI a b c ia ib 1 2 3 4 5 u)
qed

text \<open>
  Claim C9, as stated, fails: a tracked user has exactly eleven rows, the sample of the
  velocity statements is the last row, and the micropay loop then writes
  \<^verbatim>\<open>micropay_scam\<close> over it, the last two rows being a micropay pair. No row of the
  user is labelled \<^verbatim>\<open>velocity_attack\<close> after injection.
\<close>

theorem velocity_label_overwritten:
  "''USER_0007'' \<in> set (users df_last_pair) \<and>
   length (user_indices df_last_pair ''USER_0007'') = 11 \<and>
   fraud_indices last_rows df_last_pair ''USER_0007'' = [10] \<and>
   map fraud_type (add_sequential_patterns last_rows df_last_pair) =
     [''legitimate'', ''legitimate'', ''legitimate'', ''legitimate'', ''legitimate'',
      ''legitimate'', ''legitimate'', ''legitimate'', ''legitimate'', ''micropay_scam'',
      ''micropay_scam'']"
  by code_simp

text \<open>
  Claim C9, amended. For a tracked user with exactly eleven rows the sample of the
  velocity statements is exactly one row of that user. After injection that row has
  \<^verbatim>\<open>is_fraud = 1\<close>, and its label is \<^verbatim>\<open>velocity_attack\<close> unless the row is the second
  of a pair the micropay loop relabels, in which case it is \<^verbatim>\<open>micropay_scam\<close>.
\<close>

theorem velocity_sample_of_eleven:
  assumes "choice_ok choice" "u \<in> set (users df)" "length (user_indices df u) = 11"
  shows "\<exists>j. fraud_indices choice df u = [j] \<and> j \<in> set (user_indices df u) \<and>
           is_fraud (add_sequential_patterns choice df ! j) = 1 \<and>
           fraud_type (add_sequential_patterns choice df ! j) =
             (if j \<in> set (micropay_targets df u) then ''micropay_scam'' else ''velocity_attack'')"
proof -
  have "sample_size 11 = 1" by (simp add: sample_size_def round_half_even_def)
  then have "length (fraud_indices choice df u) = 1"
    using fraud_indices_props(1) [OF assms(1), of df u] assms(3) by simp
  then obtain j where fi: "fraud_indices choice df u = [j]"
    by (auto simp: length_Suc_conv)
  then have mem: "j \<in> set (user_indices df u)"
    using fraud_indices_props(3) [OF assms(1), of df u] by simp
  then have j: "j < length df" and uj: "user_id (df ! j) = u"
    by (simp_all add: user_indices_user)
  have q: "qualifies df u" using assms(2,3) by (simp add: qualifies_def)
  have "add_sequential_patterns choice df ! j = relabel choice df u j (df ! j)"
    using injector_nth [OF assms(1) j] q uj by simp
  then have "is_fraud (add_sequential_patterns choice df ! j) = 1 \<and>
           fraud_type (add_sequential_patterns choice df ! j) =
             (if j \<in> set (micropay_targets df u) then ''micropay_scam'' else ''velocity_attack'')"
    by (simp add: relabel_def fi mark_def)
  then show ?thesis using fi mem by blast
qed

theorem velocity_sample_of_eleven_witness:
  "''USER_0007'' \<in> set (users df_reversed) \<and>
   length (user_indices df_reversed ''USER_0007'') = 11 \<and>
   (\<exists>j. fraud_indices last_rows df_reversed ''USER_0007'' = [j] \<and>
        j \<in> set (user_indices df_reversed ''USER_0007'') \<and>
        is_fraud (add_sequential_patterns last_rows df_reversed ! j) = 1 \<and>
        fraud_type (add_sequential_patterns last_rows df_reversed ! j) =
          (if j \<in> set (micropay_targets df_reversed ''USER_0007'')
           then ''micropay_scam'' else ''velocity_attack''))"
proof -
  have u: "''USER_0007'' \<in> set (users df_reversed)" by code_simp
  have n: "length (user_indices df_reversed ''USER_0007'') = 11" by code_simp
  show ?thesis
    using velocity_sample_of_eleven [OF last_rows_ok u n] last_rows_ok u n by simp
qed

text \<open>
  Claim C10, as stated, fails: it speaks of every tracked user, but the loop body only
  runs for a user with more than 10 rows. A tracked user has three rows; the last two
  have amounts 5 and 15000 and the second is an hour earlier than the first. Nothing is
  relabelled.
\<close>

theorem reversed_pair_of_short_user:
  "''USER_0007'' \<in> set (users df_short) \<and>
   user_indices df_short ''USER_0007'' = [0, 1, 2] \<and>
   amount (df_short ! 1) = 5 \<and> amount (df_short ! 2) = 15000 \<and>
   timestamp (df_short ! 2) < timestamp (df_short ! 1) \<and>
   add_sequential_patterns last_rows df_short = df_short \<and>
   fraud_type (df_short ! 2) = ''legitimate''"
  by code_simp

text \<open>
  Claim C10, amended. The timestamp test is on the signed difference. For a tracked
  user with more than 10 rows and a pair of neighbours at positions \<open>i\<close> and \<open>i + 1\<close> of
  the user's rows, \<open>i\<close> at least 1: when the first amount is at most 10, the second is
  above 10000 and the second timestamp is earlier than the first, by whatever margin,
  the test holds and the second row is relabelled \<^verbatim>\<open>micropay_scam\<close> with
  \<^verbatim>\<open>is_fraud = 1\<close>.
\<close>

theorem reversed_pair_relabelled:
  assumes "choice_ok choice" "u \<in> set (users df)" "10 < length (user_indices df u)"
    and "1 \<le> i" "i + 1 < length (user_indices df u)"
    and "amount (df ! (user_indices df u ! i)) \<le> 10"
    and "10000 < amount (df ! (user_indices df u ! (i + 1)))"
    and "timestamp (df ! (user_indices df u ! (i + 1))) < timestamp (df ! (user_indices df u ! i))"
  shows "micropay_cond df (user_indices df u ! i) (user_indices df u ! (i + 1)) \<and>
         add_sequential_patterns choice df ! (user_indices df u ! (i + 1)) =
           (df ! (user_indices df u ! (i + 1)))\<lparr>is_fraud := 1, fraud_type := ''micropay_scam''\<rparr>"
proof -
  have c: "micropay_cond df (user_indices df u ! i) (user_indices df u ! (i + 1))"
    using assms(6,7,8) by (simp add: micropay_cond_def)
  have q: "qualifies df u" using assms(2,3) by (simp add: qualifies_def)
  show ?thesis
    using c micropay_pair_relabelled [OF assms(1) q assms(4,5) c] by (simp add: mark_def)
qed

theorem reversed_pair_relabelled_witness:
  "''USER_0007'' \<in> set (users df_reversed) \<and>
   10 < length (user_indices df_reversed ''USER_0007'') \<and>
   user_indices df_reversed ''USER_0007'' ! 4 = 4 \<and>
   user_indices df_reversed ''USER_0007'' ! (4 + 1) = 5 \<and>
   amount (df_reversed ! 4) \<le> 10 \<and> 10000 < amount (df_reversed ! 5) \<and>
   timestamp (df_reversed ! 5) - timestamp (df_reversed ! 4) = - (365 * 86400 * 1000000) \<and>
   add_sequential_patterns last_rows df_reversed ! 5 =
     (df_reversed ! 5)\<lparr>is_fraud := 1, fraud_type := ''micropay_scam''\<rparr>"
proof -
  have u: "''USER_0007'' \<in> set (users df_reversed)" by code_simp
  have n: "10 < length (user_indices df_reversed ''USER_0007'')" by code_simp
  have i: "(1::nat) \<le> 4" by simp
  have i1: "4 + 1 < length (user_indices df_reversed ''USER_0007'')" by code_simp
  have p4: "user_indices df_reversed ''USER_0007'' ! 4 = 4" by code_simp
  have p5: "user_indices df_reversed ''USER_0007'' ! (4 + 1) = 5" by code_simp
  have a4: "amount (df_reversed ! 4) \<le> 10" by code_simp
  have a5: "10000 < amount (df_reversed ! 5)" by code_simp
  have dt: "timestamp (df_reversed ! 5) - timestamp (df_reversed ! 4) = - (365 * 86400 * 1000000)"
    by code_simp
  then have lt: "timestamp (df_reversed ! 5) < timestamp (df_reversed ! 4)" by simp
  have "add_sequential_patterns last_rows df_reversed ! 5 =
     (df_reversed ! 5)\<lparr>is_fraud := 1, fraud_type := ''micropay_scam''\<rparr>"
    using reversed_pair_relabelled [OF last_rows_ok u n i i1, unfolded p4 p5, OF a4 a5 lt]
    by simp
  then show ?thesis using last_rows_ok u n p4 p5 a4 a5 dt by simp
qed

lemma rerun_fields [simp]:
  "user_id (rerun c h r) = user_id r" "amount (rerun c h r) = amount r"
  "timestamp (rerun c h r) = timestamp r + c"
  by (simp_all add: rerun_def)

lemma rerun_mark: "rerun c h (mark l r) = mark l (rerun c h r)"
  by (simp add: rerun_def mark_def)

lemma transaction_rerun:
  "transaction now2 hash2 rate i d = rerun (now2 - now1) hash2 (transaction now1 hash1 rate i d)"
  by (simp add: transaction_def rerun_def Let_def)

lemma generate_rerun:
  "generate_synthetic_transactions now2 hash2 rate rng n =
   map (rerun (now2 - now1) hash2) (generate_synthetic_transactions now1 hash1 rate rng n)"
  by (simp add: generate_synthetic_transactions_def transaction_rerun [of now2 hash2 _ _ _ now1 hash1])

lemma user_indices_rerun: "user_indices (map (rerun c h) d) u = user_indices d u"
proof -
  have "filter (\<lambda>i. user_id (map (rerun c h) d ! i) = u) [0..<length d] =
        filter (\<lambda>i. user_id (d ! i) = u) [0..<length d]"
    by (rule filter_cong [OF refl]) simp
  then show ?thesis by (simp add: user_indices_def)
qed

lemma users_rerun: "users (map (rerun c h) d) = users d"
  by (simp add: users_def comp_def)

lemma fraud_indices_rerun: "fraud_indices choice (map (rerun c h) d) u = fraud_indices choice d u"
  by (simp add: fraud_indices_def user_indices_rerun)

lemma update_rerun:
  "(map (rerun c h) d)[i := mark l (map (rerun c h) d ! i)] =
   map (rerun c h) (d[i := mark l (d ! i)])"
proof (cases "i < length d")
  case True
  then show ?thesis by (simp add: map_update rerun_mark)
next
  case False
  then have "d[i := mark l (d ! i)] = d"
    and "(map (rerun c h) d)[i := mark l (map (rerun c h) d ! i)] = map (rerun c h) d"
    by (simp_all add: list_update_beyond)
  then show ?thesis by simp
qed

lemma update_rerun_nth:
  "i < length d \<Longrightarrow>
   (map (rerun c h) d)[i := mark l (rerun c h (d ! i))] =
   map (rerun c h) (d[i := mark l (d ! i)])"
  by (simp add: map_update rerun_mark)

lemma set_fraud_rerun: "set_fraud l (map (rerun c h) d) idxs = map (rerun c h) (set_fraud l d idxs)"
  unfolding set_fraud_def
  by (induction idxs arbitrary: d) (simp_all add: update_rerun)

lemma add_velocity_rerun:
  "add_velocity choice (map (rerun c h) d) u = map (rerun c h) (add_velocity choice d u)"
  by (simp add: add_velocity_def fraud_indices_rerun set_fraud_rerun)

lemma micropay_cond_rerun:
  "a < length d \<Longrightarrow> b < length d \<Longrightarrow>
   micropay_cond (map (rerun c h) d) a b = micropay_cond d a b"
  by (simp add: micropay_cond_def)

lemma micropay_step_rerun:
  assumes "idxs ! i < length d" "idxs ! (i + 1) < length d"
  shows "micropay_step idxs (map (rerun c h) d) i = map (rerun c h) (micropay_step idxs d i)"
  using assms by (simp add: micropay_step_def Let_def micropay_cond_rerun update_rerun_nth)

lemma micropay_fold_rerun:
  assumes "\<forall>p \<in> set idxs. p < n" "\<forall>i \<in> set is. i + 1 < length idxs"
  shows "length d = n \<Longrightarrow>
         foldl (micropay_step idxs) (map (rerun c h) d) is =
         map (rerun c h) (foldl (micropay_step idxs) d is)"
  using assms(2)
proof (induction "is" arbitrary: d)
  case Nil
  then show ?case by simp
next
  case (Cons i "is")
  have "i + 1 < length idxs" using Cons.prems(2) by simp
  then have a: "idxs ! i < length d" and b: "idxs ! (i + 1) < length d"
    using assms(1) Cons.prems(1) by simp_all
  have len: "length (micropay_step idxs d i) = n" using Cons.prems(1) by simp
  show ?case
    using Cons.IH [OF len] Cons.prems(2) by (simp add: micropay_step_rerun [OF a b])
qed

lemma add_micropay_rerun:
  "add_micropay (map (rerun c h) d) u = map (rerun c h) (add_micropay d u)"
proof -
  let ?idxs = "user_indices d u"
  have bound: "\<forall>p \<in> set ?idxs. p < length d" by (simp add: user_indices_bound)
  have rng: "\<forall>i \<in> set [1..<length ?idxs - 1]. i + 1 < length ?idxs" by auto
  show ?thesis
    using micropay_fold_rerun [OF bound rng refl, of c h]
    by (simp add: add_micropay_def user_indices_rerun Let_def)
qed

lemma process_user_rerun:
  "process_user choice (map (rerun c h) d) u = map (rerun c h) (process_user choice d u)"
  by (simp add: process_user_def user_indices_rerun add_velocity_rerun add_micropay_rerun)

lemma fold_users_rerun:
  "foldl (process_user choice) (map (rerun c h) d) us =
   map (rerun c h) (foldl (process_user choice) d us)"
  by (induction us arbitrary: d) (simp_all add: process_user_rerun)

lemma injector_rerun:
  "add_sequential_patterns choice (map (rerun c h) df) =
   map (rerun c h) (add_sequential_patterns choice df)"
  by (simp add: add_sequential_patterns_def users_rerun fold_users_rerun)

lemma user_ids_length: "length user_ids = 1000"
  unfolding user_ids_def by (simp only: length_map length_upt)

lemma user_ids_nth: "k < 1000 \<Longrightarrow> user_ids ! k = ''USER_'' @ fmt_d 4 (1 + k)"
  unfolding user_ids_def by (simp only: nth_map length_upt nth_upt) simp

lemma injector_columns:
  "map timestamp (add_sequential_patterns choice df) = map timestamp df"
  "map device_id (add_sequential_patterns choice df) = map device_id df"
proof -
  have t: "map timestamp x = map timestamp (map core x)"
    and d: "map device_id x = map device_id (map core x)" for x
    by (simp_all add: comp_def core_def)
  show "map timestamp (add_sequential_patterns choice df) = map timestamp df"
    by (subst t, subst injector_core, rule t [symmetric])
  show "map device_id (add_sequential_patterns choice df) = map device_id df"
    by (subst d, subst injector_core, rule d [symmetric])
qed

lemma transaction_timestamp:
  "timestamp (transaction now hash rate i d) = now - days 90 + timedelta_mul (days 90) (d_time d)"
  by (simp add: transaction_def Let_def)

lemma transaction_device:
  "device_id (transaction now hash rate i d) =
   ''DEV_'' @ fmt_d 3 (nat (hash (random_choice user_ids (d_user d)) mod 100))"
  by (simp add: transaction_def Let_def)

lemma user_of_draws_a: "random_choice user_ids (d_user draws_a) = ''USER_0007''"
proof -
  have "random_choice user_ids (d_user draws_a) = user_ids ! 6"
    by (simp add: random_choice_def user_ids_length draws_a_def)
  also have "\<dots> = ''USER_'' @ fmt_d 4 (1 + 6)" by (rule user_ids_nth) simp
  also have "\<dots> = ''USER_0007''" by code_simp
  finally show ?thesis .
qed

lemma offset_of_draws_a: "timedelta_mul 7776000000000 (d_time draws_a) = 1944000000000"
  by (simp add: timedelta_mul_def draws_a_def round_half_even_def)

text \<open>
  Claim C2, as stated, fails: two runs with the same seed (the same draws and the same
  sampler) and the same \<open>N = 1\<close>, the second started a minute after the first in a
  process with another string hash, return different timestamps and different
  device identifiers.
\<close>

theorem runs_differ:
  "map timestamp (pipeline last_rows 1700000000000000 hash_a (1 / 10) rng_a 1) = [1694168000000000] \<and>
   map timestamp (pipeline last_rows 1700000060000000 hash_b (1 / 10) rng_a 1) = [1694168060000000] \<and>
   map device_id (pipeline last_rows 1700000000000000 hash_a (1 / 10) rng_a 1) = [''DEV_013''] \<and>
   map device_id (pipeline last_rows 1700000060000000 hash_b (1 / 10) rng_a 1) = [''DEV_086'']"
proof -
  have a: "fmt_d 3 (nat (hash_a ''USER_0007'' mod 100)) = ''013''" by code_simp
  have b: "fmt_d 3 (nat (hash_b ''USER_0007'' mod 100)) = ''086''" by code_simp
  show ?thesis
    unfolding pipeline_def injector_columns
    by (simp add: generate_synthetic_transactions_def rng_a_def transaction_timestamp
        transaction_device user_of_draws_a offset_of_draws_a a b days_def)
qed

text \<open>
  Claim C2, amended. For a fixed seed (the same draws and the same sampler) and the
  same \<open>N\<close>, the tables of two runs of generator and injector agree row by row in
  every column except \<^verbatim>\<open>timestamp\<close> and \<^verbatim>\<open>device_id\<close>: the timestamps of one run are
  those of the other moved by the difference of the two clock readings, and the device
  identifier is computed from \<^verbatim>\<open>user_id\<close> with the string hash of the running process.
  Runs with the same clock reading and the same string hash return the same table.
\<close>

theorem rerun_agreement:
  "pipeline choice now2 hash2 FRAUD_RATE rng n =
     map (\<lambda>r. r\<lparr>timestamp := timestamp r + (now2 - now1),
                 device_id := ''DEV_'' @ fmt_d 3 (nat (hash2 (user_id r) mod 100))\<rparr>)
       (pipeline choice now1 hash1 FRAUD_RATE rng n)"
proof -
  have "pipeline choice now2 hash2 FRAUD_RATE rng n =
        map (rerun (now2 - now1) hash2) (pipeline choice now1 hash1 FRAUD_RATE rng n)"
    unfolding pipeline_def
    by (subst generate_rerun [of now2 hash2 _ _ _ now1 hash1]) (rule injector_rerun)
  then show ?thesis by (simp add: rerun_def [abs_def])
qed

end
